theory Spec2Isabelle
  imports Complex_Main
begin

unbundle bit_operations_syntax

section \<open>Shared vocabulary\<close>

text \<open>
  Exceptions of the Python source that the model can reach.
\<close>

datatype error = IndexError | AttributeError | NotImplementedError

text \<open>
  What a coroutine does when it is awaited: it returns (with the state it leaves behind),
  it raises, or it stays suspended for ever on the input it was given.
\<close>

datatype 'a outcome = Returns 'a | Raises error 'a | Suspended

section \<open>SimpleQueue (main.py, lines 8-30)\<close>

text \<open>
  The queue is a Python list \<open>_queue\<close> together with an \<open>asyncio.Event\<close>, of which only
  the flag matters here. Isabelle identifiers cannot start with an underscore, so the two
  fields are called \<open>queue\<close> and \<open>ev\<close>.
\<close>

record 'a simple_queue =
  queue :: "'a list"
  ev :: bool

definition new_queue :: "'a simple_queue" where
  "new_queue = \<lparr>queue = [], ev = False\<rparr>"

definition qsize :: "'a simple_queue \<Rightarrow> nat" where
  "qsize q = length (queue q)"

definition empty :: "'a simple_queue \<Rightarrow> bool" where
  "empty q = (length (queue q) = 0)"

definition put :: "'a \<Rightarrow> 'a simple_queue \<Rightarrow> 'a simple_queue" where
  "put item q = q\<lparr>queue := queue q @ [item], ev := True\<rparr>"

text \<open>
  \<open>get\<close> on a queue that holds an item does not suspend: it pops index 0 and clears the
  event when the list became empty. On an empty queue the caller waits on the event; that
  is the value \<open>None\<close>, with the queue untouched.
\<close>

definition get :: "'a simple_queue \<Rightarrow> ('a \<times> 'a simple_queue) option" where
  "get q =
     (if empty q then None
      else (case queue q of
              [] \<Rightarrow> None
            | item # rest \<Rightarrow>
                (let q' = q\<lparr>queue := rest\<rparr>
                 in Some (item, if empty q' then q'\<lparr>ev := False\<rparr> else q'))))"

text \<open>A run of \<open>put\<close> calls, and a run of \<open>get\<close> calls by any callers, in program order.\<close>

fun puts :: "'a list \<Rightarrow> 'a simple_queue \<Rightarrow> 'a simple_queue" where
  "puts [] q = q"
| "puts (x # xs) q = puts xs (put x q)"

fun gets :: "nat \<Rightarrow> 'a simple_queue \<Rightarrow> ('a list \<times> 'a simple_queue) option" where
  "gets 0 q = Some ([], q)"
| "gets (Suc n) q =
     (case get q of
        None \<Rightarrow> None
      | Some (item, q') \<Rightarrow>
          (case gets n q' of
             None \<Rightarrow> None
           | Some (items, q'') \<Rightarrow> Some (item # items, q'')))"


section \<open>Python list indexing\<close>

text \<open>
  \<open>xs[i]\<close> accepts \<open>-len \<le> i < len\<close>, a negative index counting from the end, and raises
  IndexError otherwise. \<open>py_index\<close> is the position read or written, \<open>None\<close> the error.
\<close>

definition py_index :: "nat \<Rightarrow> int \<Rightarrow> nat option" where
  "py_index n i =
     (if 0 \<le> i \<and> i < int n then Some (nat i)
      else if - int n \<le> i \<and> i < 0 then Some (nat (int n + i))
      else None)"

definition py_getitem :: "'a list \<Rightarrow> int \<Rightarrow> 'a option" where
  "py_getitem xs i = map_option (\<lambda>j. xs ! j) (py_index (length xs) i)"

definition py_setitem :: "'a list \<Rightarrow> int \<Rightarrow> 'a \<Rightarrow> 'a list option" where
  "py_setitem xs i v = map_option (\<lambda>j. xs[j := v]) (py_index (length xs) i)"

section \<open>AsyncLooping (main.py, lines 33-48)\<close>

text \<open>
  \<open>asyncio.create_task\<close> hands the coroutine to the scheduler and returns a handle. The
  scheduler is the list of the activities spawned so far; a handle is a position in it.
\<close>

type_synonym task = nat

text \<open>
  An instance attribute exists once a statement has assigned it. \<open>AsyncLooping.__init__\<close>
  assigns \<open>loop_task = None\<close> and \<open>start\<close> assigns the task; on an object that neither
  has touched, reading \<open>self.loop_task\<close> raises AttributeError. The running flag is
  assigned by \<open>start\<close> and by \<open>stop\<close> before anything reads it, and \<open>loop\<close> runs only as
  the task that \<open>start\<close> spawns, so no read of the flag can find it unassigned: the
  record carries its value.
\<close>

datatype 'a attribute = Unassigned | Assigned 'a

record async_looping =
  loop_runing :: bool
  loop_task :: "task option attribute"

definition new_async_looping :: async_looping where
  "new_async_looping = \<lparr>loop_runing = False, loop_task = Assigned None\<rparr>"

text \<open>
  \<open>Button.__init__\<close> (lines 52-56) calls the initialiser of \<open>Pin\<close> only, not
  \<open>AsyncLooping.__init__\<close> (as \<open>DigitalDisplay.__init__\<close> does, line 120): the
  AsyncLooping part of a new Button has no handle attribute.
\<close>

definition new_button :: async_looping where
  "new_button = \<lparr>loop_runing = False, loop_task = Unassigned\<rparr>"

definition create_task :: "task list \<Rightarrow> task \<times> task list" where
  "create_task tasks = (length tasks, tasks @ [length tasks])"

definition start :: "'a async_looping_scheme \<times> task list \<Rightarrow> 'a async_looping_scheme \<times> task list" where
  "start = (\<lambda>(self, tasks).
     (let self1 = self\<lparr>loop_runing := True\<rparr>;
          (t, tasks') = create_task tasks
      in (self1\<lparr>loop_task := Assigned (Some t)\<rparr>, tasks')))"

text \<open>
  Awaiting a task gives what its coroutine did: it finished, it raised (the exception
  reaches the awaiting caller), or it never finishes. \<open>stop\<close> receives that as the
  function \<open>await\<close> from handles to results.
\<close>

datatype task_result = Finished | Failed error | Pending

text \<open>
  \<open>AsyncLooping.loop\<close> itself (lines 38-39) raises NotImplementedError: that is what
  awaiting the task of an instance of the base class gives.
\<close>

definition await_abstract_loop :: "task \<Rightarrow> task_result" where
  "await_abstract_loop t = Failed NotImplementedError"

definition stop :: "(task \<Rightarrow> task_result) \<Rightarrow> 'a async_looping_scheme \<Rightarrow> 'a async_looping_scheme outcome" where
  "stop await self =
     (let self1 = self\<lparr>loop_runing := False\<rparr>
      in case loop_task self1 of
           Unassigned \<Rightarrow> Raises AttributeError self1
         | Assigned None \<Rightarrow> Returns self1
         | Assigned (Some t) \<Rightarrow>
             (case await t of
                Finished \<Rightarrow> Returns self1
              | Failed e \<Rightarrow> Raises e self1
              | Pending \<Rightarrow> Suspended))"

section \<open>Buttons, callbacks and the two queues (main.py, lines 169-233, 406-410)\<close>

datatype button = Up_left | Up_right | Down_left | Down_right

text \<open>The coroutine objects that travel on \<open>transfer_queue\<close>.\<close>

datatype transfer = Game_win | Game_over | Game

text \<open>The functions that the program installs as button or time-up callbacks.\<close>

datatype callback =
    Transfer_to_win
  | Transfer_to_lose
  | Transfer_to_game
  | Record_press_time
  | Record_release_time

datatype player = Play_morse "int list" | Play_pitch "int list"

text \<open>
  Timestamps are the readings of \<open>time.time()\<close>, taken as rational numbers of seconds, so
  that \<open>0.5\<close> is \<open>1/2\<close> and subtraction is exact. The closures \<open>record_press_time\<close> and
  \<open>record_release_time\<close> look \<open>time_queue\<close> up when they run, so they write to whatever
  queue that variable holds at that moment: one field of the state.
\<close>

record game_state =
  transfer_queue :: "transfer simple_queue"
  time_queue :: "(rat \<times> string) simple_queue"
  on_pressed :: "button \<Rightarrow> callback option"
  on_released :: "button \<Rightarrow> callback option"
  play_task :: "player option"

definition set_on_pressed :: "button \<Rightarrow> callback \<Rightarrow> game_state \<Rightarrow> game_state" where
  "set_on_pressed b cb s = s\<lparr>on_pressed := (on_pressed s)(b := Some cb)\<rparr>"

definition set_on_released :: "button \<Rightarrow> callback \<Rightarrow> game_state \<Rightarrow> game_state" where
  "set_on_released b cb s = s\<lparr>on_released := (on_released s)(b := Some cb)\<rparr>"

definition set_all_buttons_with :: "callback \<Rightarrow> game_state \<Rightarrow> game_state" where
  "set_all_buttons_with func s =
     set_on_pressed Down_right func
       (set_on_pressed Down_left func
         (set_on_pressed Up_right func
           (set_on_pressed Up_left func s)))"

definition transfer_to_win :: "game_state \<Rightarrow> game_state" where
  "transfer_to_win s = s\<lparr>transfer_queue := put Game_win (transfer_queue s)\<rparr>"

definition transfer_to_lose :: "game_state \<Rightarrow> game_state" where
  "transfer_to_lose s = s\<lparr>transfer_queue := put Game_over (transfer_queue s)\<rparr>"

definition transfer_to_game :: "game_state \<Rightarrow> game_state" where
  "transfer_to_game s = s\<lparr>transfer_queue := put Game (transfer_queue s)\<rparr>"

definition record_press_time :: "rat \<Rightarrow> game_state \<Rightarrow> game_state" where
  "record_press_time now s = s\<lparr>time_queue := put (now, ''press'') (time_queue s)\<rparr>"

definition record_release_time :: "rat \<Rightarrow> game_state \<Rightarrow> game_state" where
  "record_release_time now s = s\<lparr>time_queue := put (now, ''release'') (time_queue s)\<rparr>"

fun run_callback :: "rat \<Rightarrow> callback \<Rightarrow> game_state \<Rightarrow> game_state" where
  "run_callback now Transfer_to_win s = transfer_to_win s"
| "run_callback now Transfer_to_lose s = transfer_to_lose s"
| "run_callback now Transfer_to_game s = transfer_to_game s"
| "run_callback now Record_press_time s = record_press_time now s"
| "run_callback now Record_release_time s = record_release_time now s"

text \<open>
  What the other tasks do while a challenge is suspended: a button's polling loop sees an
  edge and awaits the callback bound to it at that moment (none bound: nothing happens),
  or the display's loop fires its time-up callback, which \<open>game\<close> sets to
  \<open>transfer_to_lose\<close>. Each event carries the clock reading at which it runs. The events
  of one suspension form a batch; the environment of a challenge is the list of batches,
  one for every time it suspends.
\<close>

datatype edge = Pressed button | Released button | Time_up

type_synonym event = "rat \<times> edge"

fun deliver :: "event \<Rightarrow> game_state \<Rightarrow> game_state" where
  "deliver (now, Pressed b) s =
     (case on_pressed s b of None \<Rightarrow> s | Some cb \<Rightarrow> run_callback now cb s)"
| "deliver (now, Released b) s =
     (case on_released s b of None \<Rightarrow> s | Some cb \<Rightarrow> run_callback now cb s)"
| "deliver (now, Time_up) s = run_callback now Transfer_to_lose s"

definition suspend :: "event list \<Rightarrow> game_state \<Rightarrow> game_state" where
  "suspend batch s = fold deliver batch s"

section \<open>The two challenges (main.py, lines 266-392)\<close>

text \<open>
  \<open>while time_queue.qsize() < 2 and transfer_queue.empty(): await asyncio.sleep(0.05)\<close>.
  Each sleep consumes one batch. A challenge that still waits when the environment has
  nothing more to deliver never resumes: \<open>None\<close>.
\<close>

fun wait_for_buttons :: "event list list \<Rightarrow> game_state \<Rightarrow> (game_state \<times> event list list) option" where
  "wait_for_buttons [] s =
     (if qsize (time_queue s) < 2 \<and> empty (transfer_queue s) then None else Some (s, []))"
| "wait_for_buttons (batch # env) s =
     (if qsize (time_queue s) < 2 \<and> empty (transfer_queue s)
      then wait_for_buttons env (suspend batch s)
      else Some (s, batch # env))"

text \<open>
  \<open>await time_queue.get()\<close>: \<open>while self.empty(): await self._ev.wait()\<close>, then the pop.
  Waiting on a set event returns at once without suspending, so an empty queue whose
  event is set would spin for ever; waiting on a cleared event suspends for one batch.
\<close>

fun get_time :: "event list list \<Rightarrow> game_state \<Rightarrow> ((rat \<times> string) \<times> game_state \<times> event list list) option" where
  "get_time [] s =
     (case get (time_queue s) of
        Some (item, q) \<Rightarrow> Some (item, s\<lparr>time_queue := q\<rparr>, [])
      | None \<Rightarrow> None)"
| "get_time (batch # env) s =
     (case get (time_queue s) of
        Some (item, q) \<Rightarrow> Some (item, s\<lparr>time_queue := q\<rparr>, batch # env)
      | None \<Rightarrow> if ev (time_queue s) then None else get_time env (suspend batch s))"

definition button_order :: "button list" where
  "button_order = [Up_left, Down_right, Up_right, Down_left]"

text \<open>\<open>long ^ is_hold_long\<close> on an int and a bool, used as a condition.\<close>

definition differs :: "int \<Rightarrow> bool \<Rightarrow> bool" where
  "differs long is_hold_long = (long XOR of_bool is_hold_long \<noteq> 0)"

text \<open>Mode 0 of \<open>morse\<close>, lines 277-286.\<close>

definition morse_short :: "int list \<Rightarrow> game_state \<Rightarrow> game_state outcome" where
  "morse_short code s =
     (let s1 = set_all_buttons_with Transfer_to_lose s;
          count = sum_list code - 1
      in case py_getitem button_order count of
           None \<Rightarrow> Raises IndexError s1
         | Some b \<Rightarrow> Returns (set_on_pressed b Transfer_to_win s1))"

text \<open>
  Mode 1 of \<open>morse\<close>, lines 289-334: the \<open>for\<close> loop over \<open>zip(code, buttons)\<close> and the
  \<open>transfer_to_win\<close> after it. After \<open>await transfer_to_lose()\<close> the body has nothing
  more to run, as after \<open>continue\<close>: both go on with the next pair.
\<close>

fun morse_long :: "(int \<times> button) list \<Rightarrow> event list list \<Rightarrow> game_state \<Rightarrow> game_state outcome" where
  "morse_long [] env s = Returns (transfer_to_win s)"
| "morse_long ((long, b) # rest) env s =
     (let s1 = set_all_buttons_with Transfer_to_lose s;
          s2 = s1\<lparr>time_queue := new_queue\<rparr>;
          s3 = set_on_released b Record_release_time (set_on_pressed b Record_press_time s2)
      in case wait_for_buttons env s3 of
           None \<Rightarrow> Suspended
         | Some (s4, env4) \<Rightarrow>
             if \<not> empty (transfer_queue s4) then Returns s4
             else (case queue (time_queue s4) of
                     [] \<Rightarrow> Raises IndexError s4
                   | first # _ \<Rightarrow>
                       (case (if snd first = ''release''
                              then map_option snd (get_time env4 s4)
                              else Some (s4, env4)) of
                          None \<Rightarrow> Suspended
                        | Some (s5, env5) \<Rightarrow>
                            (case get_time env5 s5 of
                               None \<Rightarrow> Suspended
                             | Some ((press_time, _), s6, env6) \<Rightarrow>
                                 (case get_time env6 s6 of
                                    None \<Rightarrow> Suspended
                                  | Some ((release_time, _), s7, env7) \<Rightarrow>
                                      (let hold_time = \<bar>release_time - press_time\<bar>;
                                           is_hold_long = (hold_time > 1 / 2)
                                       in if differs long is_hold_long
                                          then morse_long rest env7 (transfer_to_lose s7)
                                          else morse_long rest env7 s7))))))"

text \<open>
  \<open>morse\<close>: the random draws are arguments (\<open>mode\<close>, the four draws of the list
  comprehension, the position set to 1).
\<close>

definition morse :: "int \<Rightarrow> int list \<Rightarrow> int \<Rightarrow> event list list \<Rightarrow> game_state \<Rightarrow> game_state outcome" where
  "morse mode draws position env s =
     (case py_setitem draws position 1 of
        None \<Rightarrow> Raises IndexError s
      | Some code \<Rightarrow>
          (let tape = [mode, 1] @ code;
               s0 = s\<lparr>play_task := Some (Play_morse tape)\<rparr>
           in if mode = 0 then morse_short code s0
              else if mode = 1 then morse_long (zip code button_order) env s0
              else Returns s0))"

text \<open>Mode 0 of \<open>pitch\<close>, lines 352-388.\<close>

definition pitch_low_high :: "int \<Rightarrow> int \<Rightarrow> int \<Rightarrow> event list list \<Rightarrow> game_state \<Rightarrow> game_state outcome" where
  "pitch_low_high long up right env s =
     (case py_getitem [[Down_left, Down_right], [Up_left, Up_right]] up of
        None \<Rightarrow> Raises IndexError s
      | Some row \<Rightarrow>
     (case py_getitem row right of
        None \<Rightarrow> Raises IndexError s
      | Some b \<Rightarrow>
     (let s2 = s\<lparr>time_queue := new_queue\<rparr>;
          s3 = set_on_released b Record_release_time (set_on_pressed b Record_press_time s2)
      in case wait_for_buttons env s3 of
           None \<Rightarrow> Suspended
         | Some (s4, env4) \<Rightarrow>
             (case queue (time_queue s4) of
                [] \<Rightarrow> Raises IndexError s4
              | first # _ \<Rightarrow>
                  (case (if snd first = ''release''
                         then map_option snd (get_time env4 s4)
                         else Some (s4, env4)) of
                     None \<Rightarrow> Suspended
                   | Some (s5, env5) \<Rightarrow>
                       if \<not> empty (transfer_queue s5) then Returns s5
                       else (case get_time env5 s5 of
                               None \<Rightarrow> Suspended
                             | Some ((press_time, _), s6, env6) \<Rightarrow>
                                 (case get_time env6 s6 of
                                    None \<Rightarrow> Suspended
                                  | Some ((release_time, _), s7, env7) \<Rightarrow>
                                      (let hold_time = release_time - press_time;
                                           is_hold_long = (hold_time > 1 / 2)
                                       in if differs long is_hold_long
                                          then Returns (transfer_to_lose s7)
                                          else Returns (transfer_to_win s7)))))))))"

definition pitch :: "int \<Rightarrow> int \<Rightarrow> int \<Rightarrow> int \<Rightarrow> event list list \<Rightarrow> game_state \<Rightarrow> game_state outcome" where
  "pitch mode long up right env s =
     (let tape = [mode, mode XOR 1, long, up, right];
          s0 = s\<lparr>play_task := Some (Play_pitch tape)\<rparr>;
          s1 = set_all_buttons_with Transfer_to_lose s0
      in if mode = 0 then pitch_low_high long up right env s1
         else if mode = 1 then
           (case py_getitem [Down_left, Up_right] right of
              None \<Rightarrow> Raises IndexError s1
            | Some b \<Rightarrow> Returns (set_on_pressed b Transfer_to_win s1))
         else Returns s1)"

text \<open>
  The state in which \<open>game\<close> hands over to a challenge: \<open>main\<close> took the challenge off
  the transfer queue, which was its only item, and has bound every button to
  \<open>transfer_to_lose\<close> and one of them to \<open>transfer_to_game\<close>.
\<close>

definition at_challenge :: "button \<Rightarrow> game_state" where
  "at_challenge b =
     set_on_pressed b Transfer_to_game
       (set_all_buttons_with Transfer_to_lose
          \<lparr>transfer_queue = \<lparr>queue = [], ev = False\<rparr>,
           time_queue = new_queue,
           on_pressed = (\<lambda>_. None),
           on_released = (\<lambda>_. None),
           play_task = None\<rparr>)"

section \<open>DigitalDisplay (main.py, lines 117-166)\<close>

record display = async_looping +
  minute :: int
  second :: int
  timeup_callback :: "callback option"
  is_pause :: bool
  is_show :: bool

definition new_display :: display where
  "new_display =
     \<lparr>loop_runing = False, loop_task = Assigned None,
      minute = 0, second = 0, timeup_callback = None, is_pause = False, is_show = True\<rparr>"

definition pause :: "display \<Rightarrow> display" where
  "pause self = self\<lparr>is_pause := True\<rparr>"

definition set_timeup_callback :: "callback \<Rightarrow> display \<Rightarrow> display" where
  "set_timeup_callback cb self = self\<lparr>timeup_callback := Some cb\<rparr>"

text \<open>\<open>divmod(second, 60)\<close> is floor division and its remainder, as \<open>div\<close> and \<open>mod\<close> on \<open>int\<close>.\<close>

definition set_time :: "int \<Rightarrow> int \<Rightarrow> display \<Rightarrow> display" where
  "set_time sec mins self =
     (let quotient = sec div 60;
          sec' = sec mod 60;
          mins' = mins + quotient
      in self\<lparr>second := sec', minute := mins'\<rparr>)"

text \<open>
  What reaches the outside in one pass of the loop: \<open>self.numbers(minute, second)\<close>,
  \<open>self.write(segments)\<close>, and the awaited time-up callback.
\<close>

datatype display_out = Numbers int int | Write "nat list" | Timeup callback

text \<open>
  The loop gives way to other tasks only in its two sleeps. What another task may call on
  the display meanwhile: nothing, \<open>pause()\<close>, or \<open>stop()\<close>, whose first statement clears
  the running flag before it waits for the loop to end.
\<close>

datatype ext_call = No_call | Call_pause | Call_stop

fun during_sleep :: "ext_call \<Rightarrow> display \<Rightarrow> display" where
  "during_sleep No_call self = self"
| "during_sleep Call_pause self = pause self"
| "during_sleep Call_stop self = self\<lparr>loop_runing := False\<rparr>"

text \<open>One pass through the body of \<open>while self.loop_runing\<close>, lines 135-160.\<close>

definition loop_body :: "ext_call \<Rightarrow> display \<Rightarrow> display \<times> display_out list" where
  "loop_body call self =
     (if is_pause self then
        (let self1 = during_sleep call self;
             self2 = self1\<lparr>is_show := \<not> is_show self1\<rparr>
         in (self2,
             [if is_show self2 then Numbers (minute self2) (second self2)
              else Write [0, 0, 0, 0]]))
      else
        (let self1 = self\<lparr>second := second self - 1\<rparr>;
             self2 = (if second self1 < 0
                      then self1\<lparr>second := 59, minute := minute self1 - 1\<rparr>
                      else self1);
             self3 = (if minute self2 < 0 then self2\<lparr>minute := 0\<rparr> else self2);
             shown = Numbers (minute self3) (second self3);
             self4 = during_sleep call self3
         in if second self4 = 0 \<and> minute self4 = 0
            then (let self5 = self4\<lparr>loop_runing := False\<rparr>
                  in (self5,
                      shown # (case timeup_callback self5 of
                                 None \<Rightarrow> []
                               | Some cb \<Rightarrow> [Timeup cb])))
            else (self4, [shown])))"

text \<open>
  The loop. Its argument lists, pass by pass, what other tasks call during the sleep of
  that pass. The paused display leaves the loop only when it is stopped from outside, so
  a loop that is still running when the list ends has not returned: \<open>None\<close>.
\<close>

fun loop :: "ext_call list \<Rightarrow> display \<Rightarrow> (display \<times> display_out list) option" where
  "loop [] self = (if loop_runing self then None else Some (self, []))"
| "loop (call # calls) self =
     (if loop_runing self
      then (case loop_body call self of
              (self', out) \<Rightarrow>
                (case loop calls self' of
                   None \<Rightarrow> None
                 | Some (self'', outs) \<Rightarrow> Some (self'', out @ outs)))
      else Some (self, []))"

section \<open>Theorems about SimpleQueue\<close>

lemma queue_puts: "queue (puts xs q) = queue q @ xs"
  by (induction xs arbitrary: q) (simp_all add: put_def)

lemma gets_all:
  "queue q = xs \<Longrightarrow> gets (length xs) q = Some (xs, if xs = [] then q else q\<lparr>queue := [], ev := False\<rparr>)"
proof (induction xs arbitrary: q)
  case Nil
  then show ?case by simp
next
  case (Cons x xs)
  let ?q' = "q\<lparr>queue := xs\<rparr>"
  let ?q1 = "if empty ?q' then ?q'\<lparr>ev := False\<rparr> else ?q'"
  have g: "get q = Some (x, ?q1)"
    using Cons.prems by (simp add: get_def empty_def Let_def)
  have q1: "queue ?q1 = xs" by simp
  show ?case
    using Cons.IH [OF q1] g by (cases xs) (simp_all add: empty_def)
qed

lemma gets_take:
  "n \<le> length (queue q) \<Longrightarrow>
     \<exists>q'. gets n q = Some (take n (queue q), q') \<and> queue q' = drop n (queue q)"
proof (induction n arbitrary: q)
  case 0
  then show ?case by simp
next
  case (Suc n)
  then obtain x xs where q: "queue q = x # xs" by (cases "queue q") auto
  let ?q' = "q\<lparr>queue := xs\<rparr>"
  let ?q1 = "if empty ?q' then ?q'\<lparr>ev := False\<rparr> else ?q'"
  have g: "get q = Some (x, ?q1)"
    using q by (simp add: get_def empty_def Let_def)
  have q1: "queue ?q1 = xs" by simp
  have "n \<le> length (queue ?q1)" using Suc.prems q by simp
  from Suc.IH [OF this] obtain q' where
    "gets n ?q1 = Some (take n xs, q')" "queue q' = drop n xs" using q1 by auto
  then show ?case using g q by simp
qed

lemma gets_beyond: "queue q = xs \<Longrightarrow> gets (Suc (length xs)) q = None"
proof (induction xs arbitrary: q)
  case Nil
  then show ?case by (simp add: get_def empty_def)
next
  case (Cons x xs)
  let ?q' = "q\<lparr>queue := xs\<rparr>"
  let ?q1 = "if empty ?q' then ?q'\<lparr>ev := False\<rparr> else ?q'"
  have g: "get q = Some (x, ?q1)"
    using Cons.prems by (simp add: get_def empty_def Let_def)
  have q1: "queue ?q1 = xs" by simp
  show ?case using Cons.IH [OF q1] g by simp
qed

lemma queue_puts_fresh: "queue (puts xs new_queue) = xs"
  by (simp add: queue_puts new_queue_def)

lemma gets_puts_fresh: "gets (length xs) (puts xs new_queue) = Some (xs, new_queue)"
  using gets_all [OF queue_puts_fresh [of xs]]
  by (cases xs) (simp_all add: new_queue_def put_def)

text \<open>
  C3. The items put on a fresh queue, however many, come out of the following \<open>get\<close>
  calls in the order of the puts, and the queue is then as new. Each item is handed out
  once: the first \<open>n\<close> gets return the first \<open>n\<close> items and leave exactly the others in
  the list, and one \<open>get\<close> more than there were puts does not return. For three puts
  \<open>a\<close>, \<open>b\<close>, \<open>c\<close> the three gets return \<open>a\<close>, \<open>b\<close>, \<open>c\<close>.
\<close>

theorem simple_queue_fifo:
  "gets (length xs) (puts xs new_queue) = Some (xs, new_queue)
   \<and> gets (Suc (length xs)) (puts xs new_queue) = None
   \<and> (\<exists>q'. gets (min n (length xs)) (puts xs new_queue) = Some (take n xs, q')
            \<and> queue q' = drop n xs)
   \<and> gets 3 (put c (put b (put a new_queue))) = Some ([a, b, c], new_queue)"
proof -
  have beyond: "gets (Suc (length xs)) (puts xs new_queue) = None"
    by (rule gets_beyond [OF queue_puts_fresh])
  have part: "\<exists>q'. gets (min n (length xs)) (puts xs new_queue) = Some (take n xs, q')
            \<and> queue q' = drop n xs"
  proof -
    have t: "take (min n (length xs)) xs = take n xs" "drop (min n (length xs)) xs = drop n xs"
      by (simp_all add: min_def)
    show ?thesis
      using gets_take [of "min n (length xs)" "puts xs new_queue"]
      by (simp add: queue_puts_fresh t)
  qed
  have three: "gets 3 (put c (put b (put a new_queue))) = Some ([a, b, c], new_queue)"
    using gets_puts_fresh [of "[a, b, c]"] by (simp add: numeral_3_eq_3)
  show ?thesis using gets_puts_fresh [of xs] beyond part three by blast
qed

section \<open>Theorems about AsyncLooping\<close>

text \<open>
  C8, as the claim states it, fails: \<open>start\<close> called twice on a new instance, with no
  \<open>stop\<close> between, is not refused. The scheduler then holds two activities, and the
  instance's handle names the second one only.
\<close>

theorem start_twice_counterexample:
  "snd (start (start (new_async_looping, []))) = [0, 1]
   \<and> loop_task (fst (start (start (new_async_looping, [])))) = Assigned (Some 1)"
  by (simp add: start_def create_task_def new_async_looping_def)

text \<open>
  C8, amended. \<open>start\<close> has no assertion and no guard: whatever the running flag and the
  handle were, it sets the flag, spawns one more activity and stores the new handle in
  place of the old one.
\<close>

theorem start_always_spawns:
  "start (self, tasks) =
     (self\<lparr>loop_runing := True, loop_task := Assigned (Some (length tasks))\<rparr>,
      tasks @ [length tasks])"
  by (simp add: start_def create_task_def)

text \<open>
  C10, as the claim states it, fails: \<open>stop\<close> can fail after \<open>start\<close>. An instance of
  the base class is started and then stopped; its loop has raised NotImplementedError,
  the awaited task hands the exception on, and \<open>stop\<close> raises it.
\<close>

theorem stop_after_failed_loop_counterexample:
  "stop await_abstract_loop (fst (start (new_async_looping, [])))
     = Raises NotImplementedError \<lparr>loop_runing = False, loop_task = Assigned (Some 0)\<rparr>"
  by (simp add: stop_def start_def create_task_def new_async_looping_def await_abstract_loop_def)

text \<open>
  C10, amended. On an instance whose handle is \<open>None\<close> (initialised by
  \<open>AsyncLooping.__init__\<close>, never started) \<open>stop\<close> returns without an error, whatever
  awaiting a task would give, and the instance it leaves differs from the one it got in
  the running flag only, which is cleared. On an instance that holds a task, \<open>stop\<close>
  clears the flag and does what awaiting the task does: it returns when the loop has
  finished, raises what the loop raised, and does not return while the loop does not
  end.
\<close>

theorem stop_without_start:
  "(loop_task self = Assigned None \<longrightarrow>
      stop await self = Returns (self\<lparr>loop_runing := False\<rparr>))
   \<and> (\<forall>t. loop_task self = Assigned (Some t) \<longrightarrow>
          stop await self =
            (case await t of
               Finished \<Rightarrow> Returns (self\<lparr>loop_runing := False\<rparr>)
             | Failed e \<Rightarrow> Raises e (self\<lparr>loop_runing := False\<rparr>)
             | Pending \<Rightarrow> Suspended))"
  by (simp add: stop_def Let_def)

theorem stop_without_start_witness:
  "loop_task new_async_looping = Assigned None
   \<and> stop await_abstract_loop new_async_looping = Returns new_async_looping
   \<and> loop_task (fst (start (new_async_looping, []))) = Assigned (Some 0)
   \<and> stop (\<lambda>t. Finished) (fst (start (new_async_looping, [])))
       = Returns \<lparr>loop_runing = False, loop_task = Assigned (Some 0)\<rparr>
   \<and> stop (\<lambda>t. Pending) (fst (start (new_async_looping, []))) = Suspended"
  using stop_without_start [of new_async_looping await_abstract_loop]
    stop_without_start [of "fst (start (new_async_looping, []))" "\<lambda>t. Finished"]
    stop_without_start [of "fst (start (new_async_looping, []))" "\<lambda>t. Pending"]
  by (simp add: new_async_looping_def start_def create_task_def)

text \<open>
  A Button that was never started has no handle attribute, and \<open>stop\<close> on it raises
  AttributeError after clearing the flag. The program starts every Button when the
  module is loaded (lines 176-179), before anything can stop it.
\<close>

lemma stop_on_new_button:
  "stop await new_button = Raises AttributeError new_button"
  by (simp add: stop_def new_button_def)

section \<open>Theorems about the two challenges\<close>

lemma four_bits:
  assumes "length (xs :: int list) = 4" "set xs \<subseteq> {0, 1}"
  obtains a b c d where "xs = [a, b, c, d]"
    "a = 0 \<or> a = 1" "b = 0 \<or> b = 1" "c = 0 \<or> c = 1" "d = 0 \<or> d = 1"
proof -
  from assms(1) obtain a b c d where xs: "xs = [a, b, c, d]"
    by (auto simp: length_Suc_conv numeral_eq_Suc)
  with assms(2) show ?thesis using that by auto
qed

lemma sum_of_code:
  assumes "length (code :: int list) = 4" "set code \<subseteq> {0, 1}" "1 \<in> set code"
  shows "sum_list code \<in> {1, 2, 3, 4}"
proof -
  from assms(1,2) obtain a b c d where "code = [a, b, c, d]"
    "a = 0 \<or> a = 1" "b = 0 \<or> b = 1" "c = 0 \<or> c = 1" "d = 0 \<or> d = 1"
    by (rule four_bits)
  with assms(3) show ?thesis by auto
qed

lemmas challenge_defs =
  morse_def morse_short_def pitch_def pitch_low_high_def
  py_setitem_def py_getitem_def py_index_def button_order_def
  set_all_buttons_with_def set_on_pressed_def set_on_released_def
  transfer_to_win_def transfer_to_lose_def transfer_to_game_def
  record_press_time_def record_release_time_def
  suspend_def put_def get_def empty_def qsize_def new_queue_def differs_def
  at_challenge_def

lemma wait_for_buttons_ready:
  "\<not> (qsize (time_queue s) < 2 \<and> empty (transfer_queue s)) \<Longrightarrow>
     wait_for_buttons env s = Some (s, env)"
  by (cases env) auto

lemma get_time_ready:
  "get (time_queue s) = Some (item, q) \<Longrightarrow>
     get_time env s = Some (item, s\<lparr>time_queue := q\<rparr>, env)"
  by (cases env) simp_all

text \<open>
  C9. Whatever four bits \<open>randint(0, 1)\<close> draws and whatever position \<open>randint(0, 3)\<close>
  draws, the assignment in \<open>morse\<close> succeeds and the tape that \<open>morse\<close> goes on with, in
  every mode, has four bits, one of them 1; so \<open>sum(code) - 1\<close> lies in 0..3 and the
  index into the four buttons is in bounds, read from the front. In short-code mode
  \<open>morse\<close> therefore returns, without an IndexError, with the button at that index bound
  to \<open>transfer_to_win\<close>.
\<close>

theorem morse_code_has_a_one:
  assumes "length draws = 4" and "set draws \<subseteq> {0, 1}" and "0 \<le> position" and "position \<le> 3"
  shows "\<exists>code. py_setitem draws position 1 = Some code
           \<and> length code = 4 \<and> set code \<subseteq> {0, 1} \<and> 1 \<in> set code
           \<and> 0 \<le> sum_list code - 1 \<and> sum_list code - 1 \<le> 3
           \<and> py_getitem button_order (sum_list code - 1)
               = Some (button_order ! nat (sum_list code - 1))
           \<and> morse mode draws position env s =
               (if mode = 0
                then morse_short code (s\<lparr>play_task := Some (Play_morse ([mode, 1] @ code))\<rparr>)
                else if mode = 1
                then morse_long (zip code button_order) env
                       (s\<lparr>play_task := Some (Play_morse ([mode, 1] @ code))\<rparr>)
                else Returns (s\<lparr>play_task := Some (Play_morse ([mode, 1] @ code))\<rparr>))
           \<and> morse 0 draws position env s =
               Returns (set_on_pressed (button_order ! nat (sum_list code - 1)) Transfer_to_win
                          (set_all_buttons_with Transfer_to_lose
                             (s\<lparr>play_task := Some (Play_morse ([0, 1] @ code))\<rparr>)))"
proof -
  let ?code = "draws[nat position := 1]"
  have set: "py_setitem draws position 1 = Some ?code"
    using assms by (simp add: py_setitem_def py_index_def)
  have len: "length ?code = 4" using assms by simp
  have bits: "set ?code \<subseteq> {0, 1}"
    using assms(2) set_update_subset_insert [of draws "nat position" 1] by auto
  have one: "1 \<in> set ?code"
    using assms by (simp add: set_update_memI)
  have "sum_list ?code \<in> {1, 2, 3, 4}" by (rule sum_of_code [OF len bits one])
  then have rng: "0 \<le> sum_list ?code - 1 \<and> sum_list ?code - 1 \<le> 3" by auto
  then have idx: "py_getitem button_order (sum_list ?code - 1)
               = Some (button_order ! nat (sum_list ?code - 1))"
    by (simp add: py_getitem_def py_index_def button_order_def)
  have gen: "morse mode draws position env s =
               (if mode = 0
                then morse_short ?code (s\<lparr>play_task := Some (Play_morse ([mode, 1] @ ?code))\<rparr>)
                else if mode = 1
                then morse_long (zip ?code button_order) env
                       (s\<lparr>play_task := Some (Play_morse ([mode, 1] @ ?code))\<rparr>)
                else Returns (s\<lparr>play_task := Some (Play_morse ([mode, 1] @ ?code))\<rparr>))"
    for mode
    unfolding morse_def set by (simp add: Let_def)
  have short: "morse 0 draws position env s =
               Returns (set_on_pressed (button_order ! nat (sum_list ?code - 1)) Transfer_to_win
                          (set_all_buttons_with Transfer_to_lose
                             (s\<lparr>play_task := Some (Play_morse ([0, 1] @ ?code))\<rparr>)))"
    using idx by (simp add: gen [of 0] morse_short_def Let_def)
  from set len bits one rng idx gen [of mode] short show ?thesis by blast
qed

theorem morse_code_has_a_one_witness:
  "length [0, 0, 0, 0 :: int] = 4 \<and> set [0, 0, 0, 0 :: int] \<subseteq> {0, 1}
   \<and> (0 :: int) \<le> 2 \<and> (2 :: int) \<le> 3
   \<and> py_setitem [0, 0, 0, 0] 2 (1 :: int) = Some [0, 0, 1, 0]
   \<and> py_getitem button_order (sum_list [0, 0, 1, 0] - 1) = Some Up_left
   \<and> morse 0 [0, 0, 0, 0] 2 [] (at_challenge Up_right) =
       Returns (set_on_pressed Up_left Transfer_to_win
                  (set_all_buttons_with Transfer_to_lose
                     ((at_challenge Up_right)\<lparr>play_task := Some (Play_morse [0, 1, 0, 0, 1, 0])\<rparr>)))"
proof -
  have h: "length [0, 0, 0, 0 :: int] = 4" "set [0, 0, 0, 0 :: int] \<subseteq> {0, 1}"
    "(0 :: int) \<le> 2" "(2 :: int) \<le> 3"
    by simp_all
  have c: "py_setitem [0, 0, 0, 0] 2 (1 :: int) = Some [0, 0, 1, 0]"
    by (simp add: py_setitem_def py_index_def)
  have i: "py_getitem button_order (sum_list [0, 0, 1, 0] - 1) = Some Up_left"
    "button_order ! nat (sum_list [0, 0, 1, 0] - 1) = Up_left"
    by (simp_all add: py_getitem_def py_index_def button_order_def)
  from morse_code_has_a_one [OF h, of 0 "[]" "at_challenge Up_right"]
  obtain code where "py_setitem [0, 0, 0, 0] 2 (1 :: int) = Some code"
    and m: "morse 0 [0, 0, 0, 0] 2 [] (at_challenge Up_right) =
       Returns (set_on_pressed (button_order ! nat (sum_list code - 1)) Transfer_to_win
                  (set_all_buttons_with Transfer_to_lose
                     ((at_challenge Up_right)\<lparr>play_task := Some (Play_morse ([0, 1] @ code))\<rparr>)))"
    by blast
  then have "code = [0, 0, 1, 0]" using c by simp
  with m i(2) have "morse 0 [0, 0, 0, 0] 2 [] (at_challenge Up_right) =
       Returns (set_on_pressed Up_left Transfer_to_win
                  (set_all_buttons_with Transfer_to_lose
                     ((at_challenge Up_right)\<lparr>play_task := Some (Play_morse [0, 1, 0, 0, 1, 0])\<rparr>)))"
    by simp
  with h c i(1) show ?thesis by blast
qed

text \<open>
  C5. In short-code mode, for every tape of four bits with at least one 1, the protocol
  returns with the button at index \<open>(sum(code) - 1) mod 4\<close> of the order up-left,
  down-right, up-right, down-left bound to \<open>transfer_to_win\<close> and every other button
  bound to \<open>transfer_to_lose\<close>; so a press of that button adds WIN to the transfer queue
  and a press of any other button adds LOSE.
\<close>

theorem morse_short_wiring:
  assumes "length code = 4" and "set code \<subseteq> {0, 1}" and "1 \<in> set code"
  shows "\<exists>s'. morse_short code s = Returns s'
           \<and> (\<forall>b. on_pressed s' b =
                 Some (if b = button_order ! nat ((sum_list code - 1) mod 4)
                       then Transfer_to_win else Transfer_to_lose))
           \<and> (\<forall>now b. queue (transfer_queue (deliver (now, Pressed b) s')) =
                 queue (transfer_queue s) @
                   [if b = button_order ! nat ((sum_list code - 1) mod 4)
                    then Game_win else Game_over])"
proof -
  have b: "b = Up_left \<or> b = Up_right \<or> b = Down_left \<or> b = Down_right" for b
    by (cases b) auto
  have "sum_list code \<in> {1, 2, 3, 4}" by (rule sum_of_code [OF assms])
  then consider "sum_list code = 1" | "sum_list code = 2" | "sum_list code = 3" | "sum_list code = 4"
    by auto
  then show ?thesis
  proof cases
    case 1
    show ?thesis using 1 b by (auto simp: challenge_defs)
  next
    case 2
    show ?thesis using 2 b by (auto simp: challenge_defs)
  next
    case 3
    show ?thesis using 3 b by (auto simp: challenge_defs)
  next
    case 4
    show ?thesis using 4 b by (auto simp: challenge_defs)
  qed
qed

theorem morse_short_wiring_witness:
  "length [0, 1, 0, 0 :: int] = 4 \<and> set [0, 1, 0, 0 :: int] \<subseteq> {0, 1} \<and> 1 \<in> set [0, 1, 0, 0 :: int]
   \<and> (\<exists>s'. morse_short [0, 1, 0, 0] (at_challenge Up_right) = Returns s'
          \<and> on_pressed s' Up_left = Some Transfer_to_win
          \<and> on_pressed s' Down_right = Some Transfer_to_lose
          \<and> on_pressed s' Up_right = Some Transfer_to_lose
          \<and> on_pressed s' Down_left = Some Transfer_to_lose
          \<and> queue (transfer_queue (deliver (0, Pressed Up_left) s')) = [Game_win]
          \<and> queue (transfer_queue (deliver (0, Pressed Down_left) s')) = [Game_over])"
proof -
  have h: "length [0, 1, 0, 0 :: int] = 4" "set [0, 1, 0, 0 :: int] \<subseteq> {0, 1}"
    "1 \<in> set [0, 1, 0, 0 :: int]"
    by simp_all
  have des: "button_order ! nat ((sum_list [0, 1, 0, 0] - 1) mod 4) = Up_left"
    by (simp add: button_order_def)
  have e: "queue (transfer_queue (at_challenge Up_right)) = []"
    by (simp add: at_challenge_def set_all_buttons_with_def set_on_pressed_def)
  from morse_short_wiring [OF h, of "at_challenge Up_right", unfolded des e]
  obtain s' where r: "morse_short [0, 1, 0, 0] (at_challenge Up_right) = Returns s'"
    and w: "\<And>b. on_pressed s' b = Some (if b = Up_left then Transfer_to_win else Transfer_to_lose)"
    and d: "\<And>now b. queue (transfer_queue (deliver (now, Pressed b) s')) =
              [] @ [if b = Up_left then Game_win else Game_over]"
    by blast
  have "on_pressed s' Up_left = Some Transfer_to_win"
    "on_pressed s' Down_right = Some Transfer_to_lose"
    "on_pressed s' Up_right = Some Transfer_to_lose"
    "on_pressed s' Down_left = Some Transfer_to_lose"
    by (simp_all add: w)
  moreover have "queue (transfer_queue (deliver (0, Pressed Up_left) s')) = [Game_win]"
    "queue (transfer_queue (deliver (0, Pressed Down_left) s')) = [Game_over]"
    by (simp_all add: d del: deliver.simps)
  ultimately show ?thesis using h r by blast
qed

text \<open>
  C1 does not hold of the code. The tape is \<open>[0, 0, 0, 1]\<close> and every button is held for
  a tenth of a second: the first three symbols pass, the fourth asks for a long hold and
  fails. \<open>transfer_to_lose\<close> is awaited, the \<open>for\<close> loop has no pair left, and the
  \<open>transfer_to_win\<close> after the loop runs as well: the transfer queue receives LOSE and
  then WIN.
\<close>

theorem morse_last_mismatch_gives_both:
  "(case morse 1 [0, 0, 0, 0] 3
          [[(1, Pressed Up_left), (11/10, Released Up_left)],
           [(2, Pressed Down_right), (21/10, Released Down_right)],
           [(3, Pressed Up_right), (31/10, Released Up_right)],
           [(4, Pressed Down_left), (41/10, Released Down_left)]]
          (at_challenge Up_left) of
      Returns s' \<Rightarrow> queue (transfer_queue s')
    | Raises e s' \<Rightarrow> []
    | Suspended \<Rightarrow> []) = [Game_over, Game_win]"
  by (simp add: challenge_defs)

text \<open>
  C2 does not hold of the code. In mode 0 of \<open>pitch\<close> with up-right as the button to
  hold, a press of down-left puts LOSE on the transfer queue while the timing queue is
  still empty. The waiting loop ends, and the next statement reads
  \<open>time_queue._queue[0]\<close> before the transfer queue is looked at: IndexError.
\<close>

theorem pitch_preempted_on_empty_time_queue:
  "(case pitch 0 1 1 1 [[(1, Pressed Down_left)]] (at_challenge Up_left) of
      Returns s' \<Rightarrow> None
    | Raises e s' \<Rightarrow> Some (e, queue (transfer_queue s'), queue (time_queue s'))
    | Suspended \<Rightarrow> None) = Some (IndexError, [Game_over], [])"
  by (simp add: challenge_defs)

text \<open>
  C6. In mode 0 of \<open>pitch\<close>, when the chosen button is pressed at \<open>press\<close> and released
  at \<open>release\<close> and no transfer has arrived, the protocol returns with one outcome on the
  transfer queue: WIN when the requirement \<open>long = 1\<close> agrees with
  \<open>release - press > 1/2\<close>, the signed difference, and LOSE otherwise. With \<open>long = 1\<close>
  a release stamped before its press is never long and gives LOSE.
\<close>

theorem pitch_hold_classification:
  assumes "long = 0 \<or> long = 1" and "up = 0 \<or> up = 1" and "right = 0 \<or> right = 1"
    and "b = [[Down_left, Down_right], [Up_left, Up_right]] ! nat up ! nat right"
    and "queue (transfer_queue s) = []"
  shows "\<exists>s'. pitch 0 long up right ([(press, Pressed b), (release, Released b)] # env) s
               = Returns s'
           \<and> queue (transfer_queue s') =
               [if (long = 1) = (release - press > 1 / 2) then Game_win else Game_over]
           \<and> (long = 1 \<and> release < press \<longrightarrow> queue (transfer_queue s') = [Game_over])"
proof -
  have neg: "release < press \<Longrightarrow> \<not> release - press > 1 / 2" by simp
  from assms(1,2,3) show ?thesis
    using assms(4,5) neg
    by (elim disjE) (simp_all add: challenge_defs wait_for_buttons_ready get_time_ready)
qed

theorem pitch_hold_classification_witness:
  "(\<exists>s'. pitch 0 1 1 1 ([(10, Pressed Up_right), (106 / 10, Released Up_right)] # []) (at_challenge Up_left)
            = Returns s' \<and> queue (transfer_queue s') = [Game_win])
   \<and> (\<exists>s'. pitch 0 1 1 1 ([(10, Pressed Up_right), (103 / 10, Released Up_right)] # []) (at_challenge Up_left)
            = Returns s' \<and> queue (transfer_queue s') = [Game_over])
   \<and> (\<exists>s'. pitch 0 1 1 1 ([(10, Pressed Up_right), (98 / 10, Released Up_right)] # []) (at_challenge Up_left)
            = Returns s' \<and> queue (transfer_queue s') = [Game_over])
   \<and> (\<exists>s'. pitch 0 1 1 1 ([(10, Pressed Up_right), (9, Released Up_right)] # []) (at_challenge Up_left)
            = Returns s' \<and> queue (transfer_queue s') = [Game_over])"
proof -
  have b: "Up_right = [[Down_left, Down_right], [Up_left, Up_right]] ! nat 1 ! nat 1" by simp
  have e: "queue (transfer_queue (at_challenge Up_left)) = []"
    by (simp add: at_challenge_def set_all_buttons_with_def set_on_pressed_def)
  have c: "(1::int) = 0 \<or> (1::int) = 1" by simp
  show ?thesis
    using pitch_hold_classification [OF c c c b e, of 10 "106 / 10" "[]"]
      pitch_hold_classification [OF c c c b e, of 10 "103 / 10" "[]"]
      pitch_hold_classification [OF c c c b e, of 10 "98 / 10" "[]"]
      pitch_hold_classification [OF c c c b e, of 10 9 "[]"]
    by simp
qed

section \<open>Theorems about DigitalDisplay\<close>

lemma split_time:
  "0 \<le> s \<Longrightarrow> s < 60 \<Longrightarrow> (60 * m + s) div 60 = (m::int) \<and> (60 * m + s) mod 60 = s"
  by (simp add: div_pos_pos_trivial mod_pos_pos_trivial)

lemma running_pass:
  assumes "\<not> is_pause self" and "timeup_callback self = Some cb"
    and "0 \<le> minute self" and "0 \<le> second self" and "second self < 60"
    and "60 * minute self + second self = int k + 1"
  shows "\<exists>m s. 0 \<le> m \<and> 0 \<le> s \<and> s < 60 \<and> 60 * m + s = int k
           \<and> loop_body No_call self =
               (if k = 0
                then (self\<lparr>second := 0, minute := 0, loop_runing := False\<rparr>,
                      [Numbers 0 0, Timeup cb])
                else (self\<lparr>second := s, minute := m\<rparr>, [Numbers m s]))"
proof (cases "second self = 0")
  case True
  have below: "second self - 1 < 0" using True by simp
  have m1: "1 \<le> minute self" using assms(6) True by linarith
  then have keep: "\<not> minute self - 1 < 0" by simp
  have nz: "k \<noteq> 0" using assms(6) True m1 by linarith
  have body: "loop_body No_call self =
      (self\<lparr>second := 59, minute := minute self - 1\<rparr>, [Numbers (minute self - 1) 59])"
    unfolding loop_body_def Let_def using assms(1,2) below keep by simp
  have tot: "60 * (minute self - 1) + 59 = int k"
    using assms(6) True by (simp add: algebra_simps)
  have m': "0 \<le> minute self - 1" using m1 by simp
  have b': "loop_body No_call self =
      (if k = 0
       then (self\<lparr>second := 0, minute := 0, loop_runing := False\<rparr>, [Numbers 0 0, Timeup cb])
       else (self\<lparr>second := 59, minute := minute self - 1\<rparr>, [Numbers (minute self - 1) 59]))"
    using body nz by simp
  have "(0::int) \<le> 59" "(59::int) < 60" by simp_all
  with m' tot b' show ?thesis by blast
next
  case False
  have above: "\<not> second self - 1 < 0" using False assms(4) by linarith
  have keep: "\<not> minute self < 0" using assms(3) by simp
  have tot: "60 * minute self + (second self - 1) = int k" using assms(6) by linarith
  have z: "(second self - 1 = 0 \<and> minute self = 0) = (k = 0)"
    using tot above assms(3) by linarith
  show ?thesis
  proof (cases "k = 0")
    case True
    then have s1: "second self = 1" and m0: "minute self = 0" using z by simp_all
    have body: "loop_body No_call self =
      (self\<lparr>second := 0, minute := 0, loop_runing := False\<rparr>, [Numbers 0 0, Timeup cb])"
      unfolding loop_body_def Let_def using assms(1,2) s1 m0 by simp
    have b': "loop_body No_call self =
      (if k = 0
       then (self\<lparr>second := 0, minute := 0, loop_runing := False\<rparr>, [Numbers 0 0, Timeup cb])
       else (self\<lparr>second := 0, minute := 0\<rparr>, [Numbers 0 0]))"
      using body True by simp
    have "(0::int) \<le> 0" "(0::int) < 60" "60 * 0 + 0 = int k" using True by simp_all
    with b' show ?thesis by blast
  next
    case nz: False
    then have nz': "\<not> (second self - 1 = 0 \<and> minute self = 0)" using z by simp
    have body: "loop_body No_call self =
      (self\<lparr>second := second self - 1, minute := minute self\<rparr>,
       [Numbers (minute self) (second self - 1)])"
      unfolding loop_body_def Let_def using assms(1,2) above keep nz' by auto
    have b': "loop_body No_call self =
      (if k = 0
       then (self\<lparr>second := 0, minute := 0, loop_runing := False\<rparr>, [Numbers 0 0, Timeup cb])
       else (self\<lparr>second := second self - 1, minute := minute self\<rparr>,
             [Numbers (minute self) (second self - 1)]))"
      using body nz by simp
    have "0 \<le> second self - 1" "second self - 1 < 60" using above assms(5) by simp_all
    with assms(3) tot b' show ?thesis by blast
  qed
qed

lemma loop_stopped: "\<not> loop_runing self \<Longrightarrow> loop calls self = Some (self, [])"
  by (cases calls) simp_all

lemma loop_pass:
  "loop_runing self \<Longrightarrow> loop_body call self = (self', out) \<Longrightarrow>
     loop (call # calls) self =
       (case loop calls self' of None \<Rightarrow> None | Some (self'', outs) \<Rightarrow> Some (self'', out @ outs))"
  by simp

lemma countdown_from:
  assumes "\<not> is_pause self" and "loop_runing self" and "timeup_callback self = Some cb"
    and "0 \<le> minute self" and "0 \<le> second self" and "second self < 60"
    and "60 * minute self + second self = int k + 1"
  shows "loop (replicate (Suc k) No_call @ rest) self =
           Some (self\<lparr>second := 0, minute := 0, loop_runing := False\<rparr>,
                 map (\<lambda>j. Numbers (int j div 60) (int j mod 60)) (rev [0..<Suc k]) @ [Timeup cb])"
  using assms
proof (induction k arbitrary: self)
  case 0
  from running_pass [OF "0.prems"(1,3,4,5,6,7)]
  have b: "loop_body No_call self =
      (self\<lparr>second := 0, minute := 0, loop_runing := False\<rparr>, [Numbers 0 0, Timeup cb])"
    by auto
  show ?case
    using loop_pass [OF "0.prems"(2) b, of rest] by (simp add: loop_stopped)
next
  case (Suc k)
  from running_pass [OF Suc.prems(1,3,4,5,6,7)]
  obtain m s where ms: "0 \<le> m" "0 \<le> s" "s < 60" "60 * m + s = int (Suc k)"
    and b: "loop_body No_call self = (self\<lparr>second := s, minute := m\<rparr>, [Numbers m s])"
    by auto
  let ?self' = "self\<lparr>second := s, minute := m\<rparr>"
  have shown: "Numbers m s = Numbers (int (Suc k) div 60) (int (Suc k) mod 60)"
    using split_time [OF ms(2,3), of m] ms(4) by simp
  have ih: "loop (replicate (Suc k) No_call @ rest) ?self' =
           Some (?self'\<lparr>second := 0, minute := 0, loop_runing := False\<rparr>,
                 map (\<lambda>j. Numbers (int j div 60) (int j mod 60)) (rev [0..<Suc k]) @ [Timeup cb])"
    using Suc.prems(1,2,3) ms by (intro Suc.IH) simp_all
  have "loop (No_call # (replicate (Suc k) No_call @ rest)) self =
          Some (?self'\<lparr>second := 0, minute := 0, loop_runing := False\<rparr>,
                [Numbers m s] @
                map (\<lambda>j. Numbers (int j div 60) (int j mod 60)) (rev [0..<Suc k]) @ [Timeup cb])"
    unfolding loop_pass [OF Suc.prems(2) b] ih by simp
  then show ?case unfolding shown by simp
qed

text \<open>
  C4. A display with a time-up callback, not paused, is set to \<open>S \<ge> 0\<close> seconds and
  started; no other task calls it. The loop then returns after \<open>K\<close> passes, \<open>K = S\<close> for
  \<open>S \<ge> 1\<close> (and 60 for \<open>S = 0\<close>, where the first pass borrows to 0:59). What reaches the
  outside is the render of \<open>K - 1\<close> seconds, then of \<open>K - 2\<close>, one second less each
  pass, down to 0:00, every one as minute \<open>j div 60\<close> and second \<open>j mod 60\<close> of a
  duration \<open>j \<ge> 0\<close>, and after the render of 0:00 the callback, once. The loop has then
  cleared its running flag and ignores whatever calls follow.
\<close>

theorem countdown_runs_to_zero:
  assumes "0 \<le> S" and "\<not> is_pause d" and "timeup_callback d = Some cb"
  shows "loop (replicate (if S = 0 then 60 else nat S) No_call @ rest)
              (fst (start (set_time S 0 d, tasks))) =
           Some ((fst (start (set_time S 0 d, tasks)))
                    \<lparr>second := 0, minute := 0, loop_runing := False\<rparr>,
                 map (\<lambda>j. Numbers (int j div 60) (int j mod 60))
                     (rev [0..<(if S = 0 then 60 else nat S)]) @ [Timeup cb])"
proof -
  let ?self = "fst (start (set_time S 0 d, tasks))"
  have self: "?self = d\<lparr>loop_runing := True, loop_task := Assigned (Some (length tasks)),
                        second := S mod 60, minute := S div 60\<rparr>"
    by (simp add: start_def create_task_def set_time_def)
  have run: "loop_runing ?self" and np: "\<not> is_pause ?self" and cb: "timeup_callback ?self = Some cb"
    and mins: "minute ?self = S div 60" and sec: "second ?self = S mod 60"
    using assms(2,3) by (simp_all add: self)
  show ?thesis
  proof (cases "S = 0")
    case True
    let ?self' = "?self\<lparr>second := 59, minute := 0\<rparr>"
    have b: "loop_body No_call ?self = (?self', [Numbers 0 59])"
      unfolding loop_body_def Let_def using np mins sec True by simp
    have rest: "loop (replicate (Suc 58) No_call @ rest) ?self' =
           Some (?self'\<lparr>second := 0, minute := 0, loop_runing := False\<rparr>,
                 map (\<lambda>j. Numbers (int j div 60) (int j mod 60)) (rev [0..<Suc 58]) @ [Timeup cb])"
      using run np cb by (intro countdown_from) simp_all
    have sixty: "replicate 60 No_call @ rest = No_call # (replicate (Suc 58) No_call @ rest)"
      by (simp add: numeral_eq_Suc)
    have "(60::nat) = Suc 59" by simp
    then have upt: "[0..<60] = [0..<59] @ [59]"
      by (simp only: upt_Suc_append le0)
    have "loop (replicate 60 No_call @ rest) ?self =
          Some (?self'\<lparr>second := 0, minute := 0, loop_runing := False\<rparr>,
                [Numbers 0 59] @
                map (\<lambda>j. Numbers (int j div 60) (int j mod 60)) (rev [0..<Suc 58]) @ [Timeup cb])"
      unfolding sixty loop_pass [OF run b] rest by simp
    then show ?thesis using True by (simp add: upt)
  next
    case False
    with assms(1) have pos: "0 < S" by simp
    then have k: "nat S = Suc (nat S - 1)" by simp
    have tot: "60 * minute ?self + second ?self = int (nat S - 1) + 1"
      using pos by (simp add: mins sec)
    have bounds: "0 \<le> minute ?self" "0 \<le> second ?self" "second ?self < 60"
      using assms(1) by (simp_all add: mins sec pos_imp_zdiv_nonneg_iff)
    have "loop (replicate (Suc (nat S - 1)) No_call @ rest) ?self =
           Some (?self\<lparr>second := 0, minute := 0, loop_runing := False\<rparr>,
                 map (\<lambda>j. Numbers (int j div 60) (int j mod 60)) (rev [0..<Suc (nat S - 1)])
                   @ [Timeup cb])"
      by (rule countdown_from [OF np run cb bounds tot])
    then show ?thesis using False k by simp
  qed
qed

theorem countdown_runs_to_zero_witness:
  "(0::int) \<le> 3
   \<and> \<not> is_pause (set_timeup_callback Transfer_to_lose new_display)
   \<and> timeup_callback (set_timeup_callback Transfer_to_lose new_display) = Some Transfer_to_lose
   \<and> map_option snd
        (loop [No_call, No_call, No_call]
           (fst (start (set_time 3 0 (set_timeup_callback Transfer_to_lose new_display), []))))
       = Some [Numbers 0 2, Numbers 0 1, Numbers 0 0, Timeup Transfer_to_lose]"
proof -
  have h: "(0::int) \<le> 3" "\<not> is_pause (set_timeup_callback Transfer_to_lose new_display)"
    "timeup_callback (set_timeup_callback Transfer_to_lose new_display) = Some Transfer_to_lose"
    by (simp_all add: set_timeup_callback_def new_display_def)
  have three: "replicate (if (3::int) = 0 then 60 else nat 3) No_call @ [] = [No_call, No_call, No_call]"
    by (simp add: numeral_3_eq_3)
  have down: "rev [0..<(if (3::int) = 0 then 60 else nat 3)] = [2, 1, 0]"
    by (simp add: numeral_3_eq_3)
  show ?thesis
    using countdown_runs_to_zero [OF h, of "[]" "[]"] h unfolding three down by simp
qed








end
